theory Spec2Isabelle
  imports Main "HOL-Library.Word" "HOL-Library.Signed_Division"
begin

section \<open>The InfluxDB output of gnmic\<close>

text \<open>
  A shallow embedding of \<^verbatim>\<open>outputs/influxdb_output/influxdb_output.go\<close>.
  Channels are modelled by their identity in an explicit channel store, goroutines by
  step functions driven by what they observe, and calls into other packages (the InfluxDB
  client, the event conversion, the config decoder) by their results, which are inputs of
  the model.
\<close>

subsection \<open>Configuration and its defaults\<close>

text \<open>
  Go's \<^verbatim>\<open>uint\<close> (64 bits) and \<^verbatim>\<open>time.Duration\<close> (an \<^verbatim>\<open>int64\<close> count of
  nanoseconds) are 64-bit words.
\<close>

type_synonym uint = "64 word"
type_synonym Duration = "64 word"

definition Second :: Duration where
  "Second = 1000000000"

record Config =
  URL :: string
  Org :: string
  Bucket :: string
  Token :: string
  BatchSize :: uint
  FlushTimer :: Duration
  UseGzip :: bool
  EnableTLS :: bool
  HealthCheckPeriod :: Duration
  Debug :: bool

definition defaultURL :: string where
  "defaultURL = ''http://localhost:8086''"

definition defaultBatchSize :: uint where
  "defaultBatchSize = 1000"

definition defaultFlushTimer :: Duration where
  "defaultFlushTimer = 10 * Second"

definition defaultHealthCheckPeriod :: Duration where
  "defaultHealthCheckPeriod = 30 * Second"

definition numWorkers :: nat where
  "numWorkers = 1"

text \<open>The four \<^verbatim>\<open>if\<close> statements of \<^verbatim>\<open>Init\<close> that follow a successful decode, in order.\<close>

definition apply_defaults :: "Config \<Rightarrow> Config" where
  "apply_defaults c0 =
     (let c1 = (if URL c0 = [] then c0\<lparr>URL := defaultURL\<rparr> else c0);
          c2 = (if BatchSize c1 = 0 then c1\<lparr>BatchSize := defaultBatchSize\<rparr> else c1);
          c3 = (if FlushTimer c2 = 0 then c2\<lparr>FlushTimer := defaultFlushTimer\<rparr> else c2);
          c4 = (if HealthCheckPeriod c3 = 0
                then c3\<lparr>HealthCheckPeriod := defaultHealthCheckPeriod\<rparr> else c3)
      in c4)"

text \<open>The zero value \<^verbatim>\<open>&Config{}\<close> that the registered factory starts from.\<close>

definition zero_Config :: Config where
  "zero_Config = \<lparr>URL = [], Org = [], Bucket = [], Token = [], BatchSize = 0,
     FlushTimer = 0, UseGzip = False, EnableTLS = False, HealthCheckPeriod = 0,
     Debug = False\<rparr>"

subsection \<open>The output and its channels\<close>

text \<open>
  A channel is its identity. The fields of \<^verbatim>\<open>InfluxDBOutput\<close> that the code reads and
  writes are kept under their names; \<^verbatim>\<open>client\<close> counts the clients created so far
  (0: none yet). Logger, metrics and cancel function carry no state of their own here.
\<close>

type_synonym chan = nat

record InfluxDBOutput =
  Cfg :: Config
  client :: nat
  eventChan :: chan
  reset :: chan
  startSig :: chan
  wasup :: bool

text \<open>
  The channel store extends the output: the channels closed so far (oldest first), the
  next unused identity, and, for each of the two signal fields, every channel that was
  ever made for it.
\<close>

record sink = InfluxDBOutput +
  closed_chans :: "chan list"
  fresh :: chan
  failure_sigs :: "chan list"
  recovery_sigs :: "chan list"

text \<open>
  The factory registered by \<^verbatim>\<open>init()\<close>: three \<^verbatim>\<open>make(chan ...)\<close>, a zero
  configuration, \<^verbatim>\<open>wasup\<close> false.
\<close>

definition new_output :: sink where
  "new_output = \<lparr>Cfg = zero_Config, client = 0, eventChan = 0, reset = 1, startSig = 2,
     wasup = False, closed_chans = [], fresh = 3, failure_sigs = [1],
     recovery_sigs = [2]\<rparr>"

text \<open>A signal is live while it has been made and not yet closed.\<close>

definition live_failure :: "sink \<Rightarrow> chan list" where
  "live_failure s = filter (\<lambda>c. c \<notin> set (closed_chans s)) (failure_sigs s)"

definition live_recovery :: "sink \<Rightarrow> chan list" where
  "live_recovery s = filter (\<lambda>c. c \<notin> set (closed_chans s)) (recovery_sigs s)"

text \<open>
  The state between two calls of \<^verbatim>\<open>health\<close>: each signal field holds the one live
  channel of its kind, the two differ, and no channel in use is beyond the allocator.
\<close>

definition armed :: "sink \<Rightarrow> bool" where
  "armed s \<longleftrightarrow>
     live_failure s = [reset s] \<and> live_recovery s = [startSig s] \<and>
     reset s \<noteq> startSig s \<and> reset s < fresh s \<and> startSig s < fresh s \<and>
     (\<forall>c \<in> set (closed_chans s). c < fresh s)"

definition at_most_one_live :: "sink \<Rightarrow> bool" where
  "at_most_one_live t \<longleftrightarrow> length (live_failure t) \<le> 1 \<and> length (live_recovery t) \<le> 1"

subsection \<open>The health probe\<close>

text \<open>
  What \<^verbatim>\<open>i.client.Health(ctx)\<close> and \<^verbatim>\<open>json.Marshal(res)\<close> give: an error, a report
  (with whether it can be marshalled), or a nil report without error.
\<close>

datatype probe = ProbeError | Report bool | NilReport

text \<open>
  The statements of \<^verbatim>\<open>health\<close> that touch the output. \<^verbatim>\<open>close\<close> of a channel that is
  already closed panics in Go: that is \<open>None\<close>.
\<close>

datatype stmt = CloseReset | MakeReset | CloseStartSig | MakeStartSig | SetWasup

fun exec :: "stmt \<Rightarrow> sink \<Rightarrow> sink option" where
  "exec CloseReset s =
     (if reset s \<in> set (closed_chans s) then None
      else Some (s\<lparr>closed_chans := closed_chans s @ [reset s]\<rparr>))"
| "exec MakeReset s =
     Some (s\<lparr>reset := fresh s, fresh := Suc (fresh s),
              failure_sigs := failure_sigs s @ [fresh s]\<rparr>)"
| "exec CloseStartSig s =
     (if startSig s \<in> set (closed_chans s) then None
      else Some (s\<lparr>closed_chans := closed_chans s @ [startSig s]\<rparr>))"
| "exec MakeStartSig s =
     Some (s\<lparr>startSig := fresh s, fresh := Suc (fresh s),
              recovery_sigs := recovery_sigs s @ [fresh s]\<rparr>)"
| "exec SetWasup s = Some (s\<lparr>wasup := True\<rparr>)"

fun exec_all :: "stmt list \<Rightarrow> sink \<Rightarrow> sink option" where
  "exec_all [] s = Some s"
| "exec_all (c # cs) s = (case exec c s of None \<Rightarrow> None | Some s' \<Rightarrow> exec_all cs s')"

text \<open>The states after each statement, in order (up to a panic).\<close>

fun points :: "stmt list \<Rightarrow> sink \<Rightarrow> sink list" where
  "points [] s = []"
| "points (c # cs) s = (case exec c s of None \<Rightarrow> [] | Some s' \<Rightarrow> s' # points cs s')"

text \<open>
  The body of \<^verbatim>\<open>health\<close>, branch by branch: the statements it runs for a probe result,
  given the value of \<^verbatim>\<open>i.wasup\<close> on entry.
\<close>

fun health_stmts :: "probe \<Rightarrow> bool \<Rightarrow> stmt list" where
  "health_stmts ProbeError up = (if up then [CloseReset, MakeReset] else [])"
| "health_stmts (Report False) up = (if up then [CloseReset, MakeReset] else [])"
| "health_stmts (Report True) up = [SetWasup, CloseStartSig, MakeStartSig]"
| "health_stmts NilReport up = [SetWasup, CloseStartSig, MakeStartSig]"

text \<open>Whether \<^verbatim>\<open>health\<close> returns a non-nil error.\<close>

fun health_err :: "probe \<Rightarrow> bool" where
  "health_err ProbeError = True"
| "health_err (Report ok) = (\<not> ok)"
| "health_err NilReport = False"

definition health :: "probe \<Rightarrow> sink \<Rightarrow> sink option" where
  "health p s = exec_all (health_stmts p (wasup s)) s"

text \<open>
  The calls of \<^verbatim>\<open>health\<close> over the life of the output: those of the retry loop of
  \<^verbatim>\<open>Init\<close>, then one per tick of \<^verbatim>\<open>healthCheck\<close>. The list holds the probe results
  in order.
\<close>

fun monitor :: "probe list \<Rightarrow> sink \<Rightarrow> sink option" where
  "monitor [] s = Some s"
| "monitor (p # ps) s = (case health p s of None \<Rightarrow> None | Some s' \<Rightarrow> monitor ps s')"

fun monitor_points :: "probe list \<Rightarrow> sink \<Rightarrow> sink list" where
  "monitor_points [] s = []"
| "monitor_points (p # ps) s =
     points (health_stmts p (wasup s)) s @
     (case health p s of None \<Rightarrow> [] | Some s' \<Rightarrow> monitor_points ps s')"

text \<open>
  The health state of the specification, as confirmed by the probes seen so far: the
  result of the last one.
\<close>

datatype HealthState = Unknown | Up | Down

fun confirmed :: "probe list \<Rightarrow> HealthState" where
  "confirmed [] = Unknown"
| "confirmed ps = (if health_err (last ps) then Down else Up)"

text \<open>
  Whether the call of \<^verbatim>\<open>health\<close> on probe result \<open>p\<close>, after the probes \<open>ps\<close>, closes
  the channel that the field held on entry.
\<close>

definition fires_reset :: "probe list \<Rightarrow> probe \<Rightarrow> bool" where
  "fires_reset ps p =
     (case monitor ps new_output of None \<Rightarrow> False
      | Some s \<Rightarrow> (case health p s of None \<Rightarrow> False
                   | Some s' \<Rightarrow> closed_chans s' = closed_chans s @ [reset s]))"

definition fires_startSig :: "probe list \<Rightarrow> probe \<Rightarrow> bool" where
  "fires_startSig ps p =
     (case monitor ps new_output of None \<Rightarrow> False
      | Some s \<Rightarrow> (case health p s of None \<Rightarrow> False
                   | Some s' \<Rightarrow> closed_chans s' = closed_chans s @ [startSig s]))"

subsection \<open>Events, points and time\<close>

text \<open>
  \<^verbatim>\<open>collector.EventMsg\<close>: the four fields the worker reads. Go maps are partial
  functions; the values are scalars of any type \<open>'v\<close>; the timestamp is an
  \<^verbatim>\<open>int64\<close>, read as an integer.
\<close>

record 'v EventMsg =
  Name :: string
  Timestamp :: int
  Tags :: "string \<rightharpoonup> string"
  Values :: "string \<rightharpoonup> 'v"

text \<open>
  \<^verbatim>\<open>time.Unix(sec, nsec)\<close> of Go's standard library normalises the nanoseconds into
  \<open>[0, 10\<^sup>9)\<close>, with Go's truncating division; \<^verbatim>\<open>UnixNano\<close> reads a time back as
  nanoseconds since the epoch.
\<close>

record Time =
  sec :: int
  nsec :: int

definition Unix :: "int \<Rightarrow> int \<Rightarrow> Time" where
  "Unix sec0 nsec0 =
     (if nsec0 < 0 \<or> nsec0 \<ge> 1000000000 then
        (let n = nsec0 sdiv 1000000000;
             sec1 = sec0 + n;
             nsec1 = nsec0 - n * 1000000000
         in if nsec1 < 0 then \<lparr>sec = sec1 - 1, nsec = nsec1 + 1000000000\<rparr>
            else \<lparr>sec = sec1, nsec = nsec1\<rparr>)
      else \<lparr>sec = sec0, nsec = nsec0\<rparr>)"

definition UnixNano :: "Time \<Rightarrow> int" where
  "UnixNano t = sec t * 1000000000 + nsec t"

text \<open>
  The point handed to the writer: the four arguments of \<^verbatim>\<open>influxdb2.NewPoint\<close>, as
  given.
\<close>

record 'v Point =
  measurement :: string
  tags :: "string \<rightharpoonup> string"
  pfields :: "string \<rightharpoonup> 'v"
  ptime :: Time

definition NewPoint ::
  "string \<Rightarrow> (string \<rightharpoonup> string) \<Rightarrow> (string \<rightharpoonup> 'v) \<Rightarrow> Time \<Rightarrow> 'v Point" where
  "NewPoint m ts fs t = \<lparr>measurement = m, tags = ts, pfields = fs, ptime = t\<rparr>"

text \<open>The point that the worker builds from an event.\<close>

definition to_point :: "'v EventMsg \<Rightarrow> 'v Point" where
  "to_point ev = NewPoint (Name ev) (Tags ev) (Values ev) (Unix 0 (Timestamp ev))"

subsection \<open>Write\<close>

text \<open>
  The message is nil (\<open>None\<close>), a \<^verbatim>\<open>*gnmi.SubscribeResponse\<close>, or any other proto
  message. The conversion \<^verbatim>\<open>collector.ResponseToEventMsgs\<close> is a parameter: it gives
  an error (\<open>Inl\<close>) or the events.
\<close>

datatype 'r Message = SubscribeResponse 'r | OtherMessage

type_synonym Meta = "string \<rightharpoonup> string"

text \<open>
  A \<^verbatim>\<open>select\<close> blocks until one of its cases can proceed and then runs one of them.
  Which case of the \<^verbatim>\<open>select\<close> in \<^verbatim>\<open>Write\<close> ran is given by the schedule, one entry
  for each \<^verbatim>\<open>select\<close> entered; when the schedule is used up, the call is still blocked.
\<close>

datatype sel = SelCtxDone | SelReset | SelSent

datatype status = Returned | Blocked

datatype 'v effect = Convert string | LogConvertFailed string | Send "'v EventMsg"

fun deliver :: "'v EventMsg list \<Rightarrow> sel list \<Rightarrow> status \<times> 'v EventMsg list" where
  "deliver [] sched = (Returned, [])"
| "deliver (ev # events) [] = (Blocked, [])"
| "deliver (ev # events) (SelCtxDone # sched) = (Returned, [])"
| "deliver (ev # events) (SelReset # sched) = (Returned, [])"
| "deliver (ev # events) (SelSent # sched) =
     (case deliver events sched of (st, sent) \<Rightarrow> (st, ev # sent))"

text \<open>The measurement name of \<^verbatim>\<open>Write\<close>: \<^verbatim>\<open>"default"\<close>, or the metadata's subscription name.\<close>

definition measName :: "Meta \<Rightarrow> string" where
  "measName meta =
     (case meta ''subscription-name'' of
        Some subName \<Rightarrow> subName
      | None \<Rightarrow> ''default'')"

text \<open>The events that a call sent on \<^verbatim>\<open>eventChan\<close>.\<close>

fun sent_events :: "'v effect list \<Rightarrow> 'v EventMsg list" where
  "sent_events [] = []"
| "sent_events (Send ev # es) = ev # sent_events es"
| "sent_events (e # es) = sent_events es"

text \<open>
  \<^verbatim>\<open>Write\<close> has no result in Go. The model returns whether the call returned, the
  output after the call and what the call did, in order: the conversion it asked for, a log
  line on a failed conversion, the events sent on \<^verbatim>\<open>eventChan\<close>.
\<close>

definition Write ::
  "(string \<Rightarrow> 'r \<Rightarrow> Meta \<Rightarrow> string + 'v EventMsg list) \<Rightarrow> sel list \<Rightarrow>
   'r Message option \<Rightarrow> Meta \<Rightarrow> sink \<Rightarrow> status \<times> sink \<times> 'v effect list" where
  "Write ResponseToEventMsgs sched rsp meta i =
     (case rsp of
        None \<Rightarrow> (Returned, i, [])
      | Some (SubscribeResponse r) \<Rightarrow>
          (case ResponseToEventMsgs (measName meta) r meta of
             Inl err \<Rightarrow> (Returned, i, [Convert (measName meta), LogConvertFailed err])
           | Inr events \<Rightarrow>
               (case deliver events sched of
                  (st, sent) \<Rightarrow> (st, i, Convert (measName meta) # map Send sent)))
      | Some OtherMessage \<Rightarrow> (Returned, i, []))"

subsection \<open>The worker\<close>

text \<open>
  A worker is at the label \<^verbatim>\<open>START\<close>, blocked on \<^verbatim>\<open><-i.startSig\<close>, in its
  \<^verbatim>\<open>select\<close> loop with the handle of its local variable \<^verbatim>\<open>writer\<close>, or has returned.
  A handle is the number of the call of \<^verbatim>\<open>WriteAPI\<close> that gave it. The trace holds the
  worker's log lines and its calls of the client, in order.
\<close>

datatype wstate = AtStart | WaitingRecovery | Running nat | Terminated

datatype 'v wact =
    LogWaiting | RecvStartSig | LogStarting | WriteAPI nat string string
  | LogCtxErr | LogTerminating | WritePoint nat "'v Point"
  | LogResetting | LogWriteError string

record 'v worker =
  wst :: wstate
  firstStart :: bool
  acquired :: nat
  wtrace :: "'v wact list"

text \<open>What a blocked worker can observe.\<close>

datatype 'v obs =
    CtxDone | Event "'v EventMsg" | ResetClosed | WriterError string | StartSigClosed

definition acquire :: "Config \<Rightarrow> 'v worker \<Rightarrow> 'v worker" where
  "acquire cfg w =
     w\<lparr>wst := Running (acquired w), acquired := Suc (acquired w),
       wtrace := wtrace w @ [LogStarting, WriteAPI (acquired w) (Org cfg) (Bucket cfg)]\<rparr>"

definition START :: "Config \<Rightarrow> 'v worker \<Rightarrow> 'v worker" where
  "START cfg w =
     (if \<not> firstStart w then w\<lparr>wst := WaitingRecovery, wtrace := wtrace w @ [LogWaiting]\<rparr>
      else acquire cfg w)"

definition worker_begin :: "Config \<Rightarrow> 'v worker" where
  "worker_begin cfg = START cfg \<lparr>wst = AtStart, firstStart = True, acquired = 0, wtrace = []\<rparr>"

definition worker_step :: "Config \<Rightarrow> 'v obs \<Rightarrow> 'v worker \<Rightarrow> 'v worker" where
  "worker_step cfg ob w =
     (case wst w of
        AtStart \<Rightarrow> w
      | Terminated \<Rightarrow> w
      | WaitingRecovery \<Rightarrow>
          (case ob of
             StartSigClosed \<Rightarrow> acquire cfg (w\<lparr>wtrace := wtrace w @ [RecvStartSig]\<rparr>)
           | _ \<Rightarrow> w)
      | Running writer \<Rightarrow>
          (case ob of
             CtxDone \<Rightarrow> w\<lparr>wst := Terminated, wtrace := wtrace w @ [LogCtxErr, LogTerminating]\<rparr>
           | Event ev \<Rightarrow>
               w\<lparr>wtrace := wtrace w @ [WritePoint writer (to_point ev)]\<rparr>
           | ResetClosed \<Rightarrow>
               START cfg (w\<lparr>firstStart := False, wtrace := wtrace w @ [LogResetting]\<rparr>)
           | WriterError err \<Rightarrow> w\<lparr>wtrace := wtrace w @ [LogWriteError err]\<rparr>
           | StartSigClosed \<Rightarrow> w))"

fun run_worker :: "Config \<Rightarrow> 'v obs list \<Rightarrow> 'v worker \<Rightarrow> 'v worker" where
  "run_worker cfg [] w = w"
| "run_worker cfg (ob # obs) w = run_worker cfg obs (worker_step cfg ob w)"

text \<open>
  Read off a trace: the points submitted, the handles acquired, and the handle of the
  latest acquisition.
\<close>

fun submitted :: "'v wact list \<Rightarrow> 'v Point list" where
  "submitted [] = []"
| "submitted (WritePoint h p # tr) = p # submitted tr"
| "submitted (a # tr) = submitted tr"

fun handles :: "'v wact list \<Rightarrow> nat list" where
  "handles [] = []"
| "handles (WriteAPI h org bucket # tr) = h # handles tr"
| "handles (a # tr) = handles tr"

definition current_writer :: "'v wact list \<Rightarrow> nat option" where
  "current_writer tr = (if handles tr = [] then None else Some (last (handles tr)))"

text \<open>
  The restart discipline, read on a trace: an acquisition is the first thing the worker
  does after its start line, or it directly follows a reset, the wait and the receipt of
  the recovery signal.
\<close>

definition reentry_ok :: "'v wact list \<Rightarrow> bool" where
  "reentry_ok tr \<longleftrightarrow>
     (\<forall>pre h org bucket post. tr = pre @ WriteAPI h org bucket # post \<longrightarrow>
        pre = [LogStarting] \<or>
        (\<exists>pre'. pre = pre' @ [LogResetting, LogWaiting, RecvStartSig, LogStarting]))"

text \<open>Every point is written through the handle acquired last.\<close>

definition writes_ok :: "'v wact list \<Rightarrow> bool" where
  "writes_ok tr \<longleftrightarrow>
     (\<forall>pre h p post. tr = pre @ WritePoint h p # post \<longrightarrow> current_writer pre = Some h)"

definition winv :: "Config \<Rightarrow> 'v worker \<Rightarrow> bool" where
  "winv cfg w \<longleftrightarrow>
     reentry_ok (wtrace w) \<and> writes_ok (wtrace w) \<and>
     (\<exists>rest. wtrace w = LogStarting # WriteAPI 0 (Org cfg) (Bucket cfg) # rest) \<and>
     handles (wtrace w) = [0..<acquired w] \<and>
     (\<forall>h. wst w = Running h \<longrightarrow> Suc h = acquired w) \<and>
     (wst w = WaitingRecovery \<longrightarrow>
        \<not> firstStart w \<and> (\<exists>pre. wtrace w = pre @ [LogResetting, LogWaiting])) \<and>
     wst w \<noteq> AtStart"

subsection \<open>Init\<close>

text \<open>
  \<^verbatim>\<open>outputs.DecodeConfig(cfg, i.Cfg)\<close> is a parameter: from the raw configuration and
  the current \<^verbatim>\<open>Cfg\<close> it gives an error or nil, and the \<^verbatim>\<open>Cfg\<close> it leaves behind.
  The trace holds what \<^verbatim>\<open>Init\<close> does besides updating the output.
\<close>

datatype iact =
    LogDecodeFailed string | NewClient string string | HealthCall probe | Sleep Duration
  | GoHealthCheck | LogInitialized | GoWorker nat | GoCloser

datatype outcome = Return "string option" | NoReturn | Panic

text \<open>
  The loop at the label \<^verbatim>\<open>CRCLIENT\<close> has no bound. The list holds the results of the
  probes it makes, in order; when they are used up and none succeeded the loop is still
  running, which is \<open>NoReturn\<close>.
\<close>

fun CRCLIENT :: "probe list \<Rightarrow> sink \<Rightarrow> iact list \<Rightarrow> outcome \<times> sink \<times> iact list" where
  "CRCLIENT [] i tr = (NoReturn, i, tr)"
| "CRCLIENT (p # ps) i tr =
     (let i1 = i\<lparr>client := Suc (client i)\<rparr>;
          tr1 = tr @ [NewClient (URL (Cfg i)) (Token (Cfg i)), HealthCall p]
      in case health p i1 of
           None \<Rightarrow> (Panic, i1, tr1)
         | Some i2 \<Rightarrow>
             if health_err p then CRCLIENT ps i2 (tr1 @ [Sleep (10 * Second)])
             else (Return None, i2\<lparr>wasup := True\<rparr>,
                   tr1 @ [GoHealthCheck, LogInitialized] @ map GoWorker [0..<numWorkers]
                       @ [GoCloser]))"

definition Init ::
  "('raw \<Rightarrow> Config \<Rightarrow> string option \<times> Config) \<Rightarrow> 'raw \<Rightarrow> probe list \<Rightarrow> sink \<Rightarrow>
   outcome \<times> sink \<times> iact list" where
  "Init DecodeConfig cfg ps i =
     (case DecodeConfig cfg (Cfg i) of
        (Some err, c) \<Rightarrow> (Return (Some err), i\<lparr>Cfg := c\<rparr>, [LogDecodeFailed err])
      | (None, c) \<Rightarrow> CRCLIENT ps (i\<lparr>Cfg := apply_defaults c\<rparr>) [])"

text \<open>What one failed pass through the loop at \<^verbatim>\<open>CRCLIENT\<close> leaves in the trace.\<close>

definition attempt :: "Config \<Rightarrow> probe \<Rightarrow> iact list" where
  "attempt c q = [NewClient (URL c) (Token c), HealthCall q, Sleep 10000000000]"

section \<open>The health monitor and its two signals\<close>

lemma armed_new_output: "armed new_output"
  by (simp add: armed_def new_output_def live_failure_def live_recovery_def)

lemma filter_closed_snoc:
  assumes "filter (\<lambda>c. c \<notin> set xs) ys = [a]"
  shows "filter (\<lambda>c. c \<notin> set (xs @ [r])) ys = (if a = r then [] else [a])"
proof -
  have "filter (\<lambda>c. c \<notin> set (xs @ [r])) ys
      = filter (\<lambda>c. c \<noteq> r) (filter (\<lambda>c. c \<notin> set xs) ys)"
    by (induction ys) auto
  also have "\<dots> = filter (\<lambda>c. c \<noteq> r) [a]" by (simp only: assms)
  finally show ?thesis by simp
qed

lemma armed_reset_open: "armed s \<Longrightarrow> reset s \<notin> set (closed_chans s)"
proof -
  assume "armed s"
  then have "reset s \<in> set (live_failure s)" by (simp add: armed_def)
  then show ?thesis by (simp add: live_failure_def)
qed

lemma armed_startSig_open: "armed s \<Longrightarrow> startSig s \<notin> set (closed_chans s)"
proof -
  assume "armed s"
  then have "startSig s \<in> set (live_recovery s)" by (simp add: armed_def)
  then show ?thesis by (simp add: live_recovery_def)
qed

lemma fire_reset_armed:
  assumes "armed s"
  shows "\<exists>t s'. exec CloseReset s = Some t \<and> live_failure t = [] \<and> live_recovery t = [startSig s]
      \<and> exec MakeReset t = Some s' \<and> armed s' \<and> reset s' = fresh s
      \<and> closed_chans s' = closed_chans s @ [reset s] \<and> wasup s' = wasup s \<and> startSig s' = startSig s"
proof -
  let ?t = "s\<lparr>closed_chans := closed_chans s @ [reset s]\<rparr>"
  let ?s' = "?t\<lparr>reset := fresh ?t, fresh := Suc (fresh ?t),
                   failure_sigs := failure_sigs ?t @ [fresh ?t]\<rparr>"
  from assms have a: "live_failure s = [reset s]" "live_recovery s = [startSig s]"
    "reset s \<noteq> startSig s" "reset s < fresh s" "startSig s < fresh s"
    "\<forall>c \<in> set (closed_chans s). c < fresh s"
    by (simp_all add: armed_def)
  have e1: "exec CloseReset s = Some ?t"
    using armed_reset_open [OF assms] by simp
  have e2: "exec MakeReset ?t = Some ?s'" by simp
  have lf: "live_failure ?t = []"
    using filter_closed_snoc [of "closed_chans s" "failure_sigs s" "reset s" "reset s"] a(1)
    by (simp add: live_failure_def)
  have lr: "live_recovery ?t = [startSig s]"
    using filter_closed_snoc [of "closed_chans s" "recovery_sigs s" "startSig s" "reset s"] a(2,3)
    by (simp add: live_recovery_def)
  have nf: "fresh s \<notin> set (closed_chans s @ [reset s])"
    using a(4,6) by auto
  have lf': "live_failure ?s' = [fresh s]"
    using lf nf by (simp add: live_failure_def)
  have lr': "live_recovery ?s' = [startSig s]"
    using lr by (simp add: live_recovery_def)
  have "armed ?s'"
    unfolding armed_def using lf' lr' a by (auto simp: less_Suc_eq)
  then show ?thesis using e1 e2 lf lr by (intro exI [of _ ?t] exI [of _ ?s']) simp
qed

lemma set_wasup_armed: "armed s \<Longrightarrow> armed (s\<lparr>wasup := True\<rparr>)"
  by (simp add: armed_def live_failure_def live_recovery_def)

lemma fire_startSig_armed:
  assumes "armed s"
  shows "\<exists>t s'. exec CloseStartSig s = Some t \<and> live_recovery t = [] \<and> live_failure t = [reset s]
      \<and> exec MakeStartSig t = Some s' \<and> armed s' \<and> startSig s' = fresh s
      \<and> closed_chans s' = closed_chans s @ [startSig s] \<and> wasup s' = wasup s \<and> reset s' = reset s"
proof -
  let ?t = "s\<lparr>closed_chans := closed_chans s @ [startSig s]\<rparr>"
  let ?s' = "?t\<lparr>startSig := fresh ?t, fresh := Suc (fresh ?t),
                   recovery_sigs := recovery_sigs ?t @ [fresh ?t]\<rparr>"
  from assms have a: "live_failure s = [reset s]" "live_recovery s = [startSig s]"
    "reset s \<noteq> startSig s" "reset s < fresh s" "startSig s < fresh s"
    "\<forall>c \<in> set (closed_chans s). c < fresh s"
    by (simp_all add: armed_def)
  have e1: "exec CloseStartSig s = Some ?t"
    using armed_startSig_open [OF assms] by simp
  have e2: "exec MakeStartSig ?t = Some ?s'" by simp
  have lr: "live_recovery ?t = []"
    using filter_closed_snoc [of "closed_chans s" "recovery_sigs s" "startSig s" "startSig s"] a(2)
    by (simp add: live_recovery_def)
  have lf: "live_failure ?t = [reset s]"
    using filter_closed_snoc [of "closed_chans s" "failure_sigs s" "reset s" "startSig s"] a(1,3)
    by (simp add: live_failure_def)
  have nf: "fresh s \<notin> set (closed_chans s @ [startSig s])"
    using a(5,6) by auto
  have lr': "live_recovery ?s' = [fresh s]"
    using lr nf by (simp add: live_recovery_def)
  have lf': "live_failure ?s' = [reset s]"
    using lf by (simp add: live_failure_def)
  have "armed ?s'"
    unfolding armed_def using lf' lr' a by (auto simp: less_Suc_eq)
  then show ?thesis using e1 e2 lf lr by (intro exI [of _ ?t] exI [of _ ?s']) simp
qed

lemma armed_at_most_one: "armed s \<Longrightarrow> at_most_one_live s"
  by (simp add: armed_def at_most_one_live_def)

lemma health_failed_armed:
  assumes "armed s" "health_err p"
  shows "\<exists>s'. health p s = Some s' \<and> armed s' \<and> wasup s' = wasup s \<and> startSig s' = startSig s
      \<and> closed_chans s' = (if wasup s then closed_chans s @ [reset s] else closed_chans s)
      \<and> reset s' = (if wasup s then fresh s else reset s)
      \<and> (\<forall>t \<in> set (points (health_stmts p (wasup s)) s). at_most_one_live t)"
proof (cases "wasup s")
  case False
  with assms show ?thesis by (cases p) (auto simp: health_def)
next
  case True
  from fire_reset_armed [OF assms(1)] obtain t s' where
    h: "exec CloseReset s = Some t" "live_failure t = []" "live_recovery t = [startSig s]"
       "exec MakeReset t = Some s'" "armed s'" "reset s' = fresh s"
       "closed_chans s' = closed_chans s @ [reset s]" "wasup s' = wasup s" "startSig s' = startSig s"
    by blast
  have st: "health_stmts p True = [CloseReset, MakeReset]"
    using assms(2) by (cases p) auto
  have "at_most_one_live t" using h by (simp add: at_most_one_live_def)
  moreover have "at_most_one_live s'" using h armed_at_most_one by blast
  ultimately show ?thesis using h True
    by (simp add: health_def st del: exec.simps)
qed

lemma health_ok_armed:
  assumes "armed s" "\<not> health_err p"
  shows "\<exists>s'. health p s = Some s' \<and> armed s' \<and> wasup s' \<and> reset s' = reset s
      \<and> closed_chans s' = closed_chans s @ [startSig s]
      \<and> startSig s' = fresh s
      \<and> (\<forall>t \<in> set (points (health_stmts p (wasup s)) s). at_most_one_live t)"
proof -
  let ?u = "s\<lparr>wasup := True\<rparr>"
  have au: "armed ?u" using assms(1) by (rule set_wasup_armed)
  from fire_startSig_armed [OF au] obtain t s' where
    h: "exec CloseStartSig ?u = Some t" "live_recovery t = []" "live_failure t = [reset ?u]"
       "exec MakeStartSig t = Some s'" "armed s'" "startSig s' = fresh ?u"
       "closed_chans s' = closed_chans ?u @ [startSig ?u]" "wasup s' = wasup ?u" "reset s' = reset ?u"
    by blast
  have st: "health_stmts p b = [SetWasup, CloseStartSig, MakeStartSig]" for b
    using assms(2) by (cases p) auto
  have sw: "exec SetWasup s = Some ?u" by simp
  have "at_most_one_live t" using h by (simp add: at_most_one_live_def)
  moreover have "at_most_one_live s'" using h armed_at_most_one by blast
  moreover have "at_most_one_live ?u" using au armed_at_most_one by blast
  ultimately show ?thesis using h sw
    by (simp add: health_def st del: exec.simps)
qed

lemma health_armed:
  assumes "armed s"
  shows "\<exists>s'. health p s = Some s' \<and> armed s'
      \<and> (\<forall>t \<in> set (points (health_stmts p (wasup s)) s). at_most_one_live t)"
  using health_failed_armed [OF assms, of p] health_ok_armed [OF assms, of p]
  by (cases "health_err p") blast+

lemma monitor_armed:
  "armed s \<Longrightarrow> \<exists>s'. monitor ps s = Some s' \<and> armed s'
      \<and> (\<forall>t \<in> set (monitor_points ps s). at_most_one_live t)"
proof (induction ps arbitrary: s)
  case Nil
  then show ?case by simp
next
  case (Cons p ps)
  from health_armed [OF Cons.prems, of p] obtain s1 where
    h: "health p s = Some s1" "armed s1"
       "\<forall>t \<in> set (points (health_stmts p (wasup s)) s). at_most_one_live t"
    by blast
  from Cons.IH [OF h(2)] obtain s' where
    m: "monitor ps s1 = Some s'" "armed s'" "\<forall>t \<in> set (monitor_points ps s1). at_most_one_live t"
    by blast
  show ?case using h m by auto
qed

lemma monitor_wasup:
  "armed s \<Longrightarrow> monitor ps s = Some s' \<Longrightarrow> wasup s' = (wasup s \<or> (\<exists>q \<in> set ps. \<not> health_err q))"
proof (induction ps arbitrary: s)
  case Nil
  then show ?case by simp
next
  case (Cons p ps)
  show ?case
  proof (cases "health_err p")
    case True
    from health_failed_armed [OF Cons.prems(1) True] obtain s1 where
      h: "health p s = Some s1" "armed s1" "wasup s1 = wasup s" by blast
    with Cons.prems have "monitor ps s1 = Some s'" by simp
    from Cons.IH [OF h(2) this] show ?thesis using h True by simp
  next
    case False
    from health_ok_armed [OF Cons.prems(1) False] obtain s1 where
      h: "health p s = Some s1" "armed s1" "wasup s1" by blast
    with Cons.prems have "monitor ps s1 = Some s'" by simp
    from Cons.IH [OF h(2) this] show ?thesis using h False by auto
  qed
qed


text \<open>
  C3. Fire and re-arm: in every execution of the health monitor from a new output, no
  \<^verbatim>\<open>close\<close> panics; after every statement there is at most one live failure signal and at
  most one live recovery signal; between calls each field holds the one live signal of its
  kind; and a call that closes the channel of a field leaves in that field a channel that
  is new and not closed.
\<close>

theorem fire_and_rearm:
  "(\<exists>s. monitor ps new_output = Some s \<and>
        live_failure s = [reset s] \<and> live_recovery s = [startSig s] \<and>
        (\<exists>s'. health p s = Some s' \<and>
           reset s' = (if reset s \<in> set (closed_chans s') then fresh s else reset s) \<and>
           startSig s' = (if startSig s \<in> set (closed_chans s') then fresh s else startSig s) \<and>
           reset s' \<notin> set (closed_chans s') \<and> startSig s' \<notin> set (closed_chans s') \<and>
           fresh s \<notin> set (failure_sigs s) \<and> fresh s \<notin> set (recovery_sigs s))) \<and>
   (\<forall>t \<in> set (monitor_points ps new_output). at_most_one_live t)"
proof -
  from monitor_armed [OF armed_new_output, of ps] obtain s where
    m: "monitor ps new_output = Some s" "armed s"
       "\<forall>t \<in> set (monitor_points ps new_output). at_most_one_live t"
    by blast
  from m(2) have a: "live_failure s = [reset s]" "live_recovery s = [startSig s]"
    "reset s \<noteq> startSig s" "reset s < fresh s" "startSig s < fresh s"
    by (simp_all add: armed_def)
  have ro: "reset s \<notin> set (closed_chans s)" using m(2) by (rule armed_reset_open)
  have so: "startSig s \<notin> set (closed_chans s)" using m(2) by (rule armed_startSig_open)
  have "set (live_failure s) = {reset s}" using a(1) by simp
  then have ff: "\<forall>c \<in> set (failure_sigs s). c \<in> set (closed_chans s) \<or> c = reset s"
    by (auto simp: live_failure_def)
  have "set (live_recovery s) = {startSig s}" using a(2) by simp
  then have fr: "\<forall>c \<in> set (recovery_sigs s). c \<in> set (closed_chans s) \<or> c = startSig s"
    by (auto simp: live_recovery_def)
  have nf: "fresh s \<notin> set (failure_sigs s)" "fresh s \<notin> set (recovery_sigs s)"
    using ff fr a(4,5) m(2) by (auto simp: armed_def)
  have "\<exists>s'. health p s = Some s' \<and>
           reset s' = (if reset s \<in> set (closed_chans s') then fresh s else reset s) \<and>
           startSig s' = (if startSig s \<in> set (closed_chans s') then fresh s else startSig s) \<and>
           reset s' \<notin> set (closed_chans s') \<and> startSig s' \<notin> set (closed_chans s')"
  proof (cases "health_err p")
    case True
    from health_failed_armed [OF m(2) True] obtain s' where
      h: "health p s = Some s'" "armed s'" "startSig s' = startSig s"
         "closed_chans s' = (if wasup s then closed_chans s @ [reset s] else closed_chans s)"
         "reset s' = (if wasup s then fresh s else reset s)"
      by blast
    show ?thesis using h ro so a(3) armed_reset_open [OF h(2)] armed_startSig_open [OF h(2)]
      by auto
  next
    case False
    from health_ok_armed [OF m(2) False] obtain s' where
      h: "health p s = Some s'" "armed s'" "reset s' = reset s"
         "closed_chans s' = closed_chans s @ [startSig s]" "startSig s' = fresh s"
      by blast
    show ?thesis using h ro so a(3) armed_reset_open [OF h(2)] armed_startSig_open [OF h(2)]
      by auto
  qed
  then show ?thesis using m a nf by blast
qed

theorem fire_and_rearm_witness:
  "monitor [Report True] new_output \<noteq> None \<and>
   new_output\<lparr>wasup := True\<rparr> \<in> set (monitor_points [Report True] new_output) \<and>
   at_most_one_live (new_output\<lparr>wasup := True\<rparr>)"
proof -
  have mem: "new_output\<lparr>wasup := True\<rparr> \<in> set (monitor_points [Report True] new_output)"
    by (simp add: new_output_def)
  from fire_and_rearm [of "[Report True]" ProbeError] mem show ?thesis by auto
qed

text \<open>
  C1, as stated, fails: after a successful probe, a failed probe closes the reset channel;
  the confirmed state is then Down, and the next failed probe, in the same outage, closes
  the reset channel again.
\<close>

theorem reset_fired_while_down:
  "confirmed [Report True] = Up \<and> fires_reset [Report True] ProbeError \<and>
   confirmed [Report True, ProbeError] = Down \<and> health_err ProbeError \<and>
   fires_reset [Report True, ProbeError] ProbeError"
  by (simp add: fires_reset_def health_def new_output_def)

text \<open>
  C1, amended: a failed probe (an error of the probe, or a report that cannot be
  marshalled) closes the reset channel, once, exactly when \<^verbatim>\<open>wasup\<close> is set, and
  \<^verbatim>\<open>wasup\<close> is set exactly when some earlier probe has succeeded; it is never cleared. A
  successful probe never closes the reset channel.
\<close>

theorem reset_fired_iff_wasup:
  "(\<exists>s. monitor ps new_output = Some s \<and> wasup s = (\<exists>q \<in> set ps. \<not> health_err q) \<and>
        (health_err p \<longrightarrow> fires_reset ps p = wasup s) \<and>
        (\<not> health_err p \<longrightarrow> \<not> fires_reset ps p))"
proof -
  from monitor_armed [OF armed_new_output, of ps] obtain s where
    m: "monitor ps new_output = Some s" "armed s" by blast
  have w: "wasup s = (\<exists>q \<in> set ps. \<not> health_err q)"
    using monitor_wasup [OF armed_new_output m(1)] by (simp add: new_output_def)
  have f: "fires_reset ps p = wasup s" if e: "health_err p"
  proof -
    from health_failed_armed [OF m(2) e] obtain s' where
      h: "health p s = Some s'"
         "closed_chans s' = (if wasup s then closed_chans s @ [reset s] else closed_chans s)"
      by blast
    show ?thesis using m(1) h by (simp add: fires_reset_def)
  qed
  have g: "\<not> fires_reset ps p" if e: "\<not> health_err p"
  proof -
    from health_ok_armed [OF m(2) e] obtain s' where
      h: "health p s = Some s'" "closed_chans s' = closed_chans s @ [startSig s]"
      by blast
    have "reset s \<noteq> startSig s" using m(2) by (simp add: armed_def)
    then show ?thesis using m(1) h by (simp add: fires_reset_def)
  qed
  show ?thesis using m(1) w f g by blast
qed

theorem reset_fired_iff_wasup_witness:
  "health_err ProbeError \<and> fires_reset [Report True, ProbeError] ProbeError \<and>
   \<not> fires_reset [ProbeError] ProbeError \<and>
   \<not> health_err NilReport \<and> \<not> fires_reset [Report True] NilReport"
  using reset_fired_iff_wasup [of "[Report True, ProbeError]" ProbeError]
    reset_fired_iff_wasup [of "[ProbeError]" ProbeError]
    reset_fired_iff_wasup [of "[Report True]" NilReport]
  by auto

text \<open>
  C2, as stated, fails: after a successful probe the confirmed state is Up, and the next
  successful probe closes \<^verbatim>\<open>startSig\<close> again.
\<close>

theorem startSig_fired_while_up:
  "confirmed [Report True] = Up \<and> \<not> health_err NilReport \<and>
   fires_startSig [Report True] NilReport"
  by (simp add: fires_startSig_def health_def new_output_def)

text \<open>
  C2, amended: a probe closes \<^verbatim>\<open>startSig\<close>, once, exactly when it succeeds, whatever
  the state before it.
\<close>

theorem startSig_fired_iff_success:
  "fires_startSig ps p = (\<not> health_err p)"
proof -
  from monitor_armed [OF armed_new_output, of ps] obtain s where
    m: "monitor ps new_output = Some s" "armed s" by blast
  show ?thesis
  proof (cases "health_err p")
    case True
    from health_failed_armed [OF m(2) True] obtain s' where
      h: "health p s = Some s'"
         "closed_chans s' = (if wasup s then closed_chans s @ [reset s] else closed_chans s)"
      by blast
    have "reset s \<noteq> startSig s" using m(2) by (simp add: armed_def)
    then show ?thesis using m(1) h True by (simp add: fires_startSig_def)
  next
    case False
    from health_ok_armed [OF m(2) False] obtain s' where
      h: "health p s = Some s'" "closed_chans s' = closed_chans s @ [startSig s]"
      by blast
    then show ?thesis using m(1) False by (simp add: fires_startSig_def)
  qed
qed

theorem startSig_fired_iff_success_witness:
  "fires_startSig [ProbeError] (Report True) \<and> fires_startSig [Report True] (Report True) \<and>
   \<not> fires_startSig [Report True] ProbeError"
  using startSig_fired_iff_success [of "[ProbeError]" "Report True"]
    startSig_fired_iff_success [of "[Report True]" "Report True"]
    startSig_fired_iff_success [of "[Report True]" ProbeError]
  by simp

section \<open>Init\<close>

lemma exec_Cfg: "exec c s = Some s' \<Longrightarrow> Cfg s' = Cfg s"
  by (cases c) (auto split: if_splits)

lemma exec_all_Cfg: "exec_all cs s = Some s' \<Longrightarrow> Cfg s' = Cfg s"
proof (induction cs arbitrary: s)
  case Nil
  then show ?case by simp
next
  case (Cons c cs)
  then show ?case by (auto split: option.splits dest: exec_Cfg)
qed

lemma health_Cfg: "health p s = Some s' \<Longrightarrow> Cfg s' = Cfg s"
  unfolding health_def by (rule exec_all_Cfg)

lemma CRCLIENT_Cfg: "Cfg (fst (snd (CRCLIENT ps i tr))) = Cfg i"
proof (induction ps arbitrary: i tr)
  case Nil
  then show ?case by simp
next
  case (Cons p ps)
  show ?case
  proof (cases "health p (i\<lparr>client := Suc (client i)\<rparr>)")
    case None
    then show ?thesis by (simp add: Let_def)
  next
    case (Some i2)
    from health_Cfg [OF Some] have "Cfg i2 = Cfg i" by simp
    with Some Cons.IH [of i2] show ?thesis by (simp add: Let_def)
  qed
qed

text \<open>
  C9. After a successful decode the configuration of the output is the decoded one with
  the defaults substituted: an empty URL becomes \<^verbatim>\<open>http://localhost:8086\<close>, a zero batch
  size 1000, a zero flush timer 10 seconds, a zero health check period 30 seconds (in
  nanoseconds, without wrap-around); every non-zero value and every other field is kept.
\<close>

theorem defaults_substituted:
  "URL (apply_defaults c) = (if URL c = [] then ''http://localhost:8086'' else URL c) \<and>
   BatchSize (apply_defaults c) = (if BatchSize c = 0 then 1000 else BatchSize c) \<and>
   FlushTimer (apply_defaults c) = (if FlushTimer c = 0 then 10 * Second else FlushTimer c) \<and>
   HealthCheckPeriod (apply_defaults c) =
     (if HealthCheckPeriod c = 0 then 30 * Second else HealthCheckPeriod c) \<and>
   unat (10 * Second) = 10 * 10 ^ 9 \<and> unat (30 * Second) = 30 * 10 ^ 9 \<and>
   Org (apply_defaults c) = Org c \<and> Bucket (apply_defaults c) = Bucket c \<and>
   Token (apply_defaults c) = Token c \<and> UseGzip (apply_defaults c) = UseGzip c \<and>
   EnableTLS (apply_defaults c) = EnableTLS c \<and> Debug (apply_defaults c) = Debug c \<and>
   (DecodeConfig cfg (Cfg i) = (None, c) \<longrightarrow>
      Cfg (fst (snd (Init DecodeConfig cfg ps i))) = apply_defaults c)"
  by (simp add: apply_defaults_def defaultURL_def defaultBatchSize_def defaultFlushTimer_def
      defaultHealthCheckPeriod_def Second_def Init_def CRCLIENT_Cfg Let_def)

theorem defaults_substituted_witness:
  "Cfg (fst (snd (Init (\<lambda>raw c. (None, c\<lparr>Org := raw\<rparr>)) ''lab'' [NilReport] new_output)))
     = zero_Config\<lparr>URL := ''http://localhost:8086'', Org := ''lab'', BatchSize := 1000,
         FlushTimer := 10000000000, HealthCheckPeriod := 30000000000\<rparr>"
  using defaults_substituted [of "zero_Config\<lparr>Org := ''lab''\<rparr>"
      "\<lambda>raw c. (None, c\<lparr>Org := raw\<rparr>)" "''lab''" new_output "[NilReport]"]
  by (simp add: new_output_def zero_Config_def apply_defaults_def defaultURL_def
      defaultBatchSize_def defaultFlushTimer_def defaultHealthCheckPeriod_def Second_def)

lemma health_failed_not_up: "health_err p \<Longrightarrow> \<not> wasup i \<Longrightarrow> health p i = Some i"
  by (cases p) (auto simp: health_def)

lemma CRCLIENT_no_error: "fst (CRCLIENT ps i tr) \<noteq> Return (Some e)"
proof (induction ps arbitrary: i tr)
  case Nil
  then show ?case by simp
next
  case (Cons p ps)
  show ?case
  proof (cases "health p (i\<lparr>client := Suc (client i)\<rparr>)")
    case None
    then show ?thesis by (simp add: Let_def)
  next
    case (Some i2)
    with Cons.IH [of i2] show ?thesis by (simp add: Let_def)
  qed
qed

lemma CRCLIENT_retries:
  "\<forall>q \<in> set fails. health_err q \<Longrightarrow> \<not> wasup i \<Longrightarrow>
   CRCLIENT (fails @ ps) i tr =
     CRCLIENT ps (i\<lparr>client := client i + length fails\<rparr>)
       (tr @ concat (map (attempt (Cfg i)) fails))"
proof (induction fails arbitrary: i tr)
  case Nil
  then show ?case by simp
next
  case (Cons q fails)
  let ?i1 = "i\<lparr>client := Suc (client i)\<rparr>"
  have h: "health q ?i1 = Some ?i1"
    using Cons.prems by (intro health_failed_not_up) auto
  have "CRCLIENT ((q # fails) @ ps) i tr =
      CRCLIENT (fails @ ps) ?i1 (tr @ attempt (Cfg i) q)"
    using Cons.prems h by (simp add: Let_def attempt_def Second_def)
  also have "\<dots> = CRCLIENT ps (?i1\<lparr>client := client ?i1 + length fails\<rparr>)
       ((tr @ attempt (Cfg i) q) @ concat (map (attempt (Cfg ?i1)) fails))"
    using Cons.prems by (intro Cons.IH) auto
  finally show ?case by simp
qed

lemma armed_client: "armed (i\<lparr>client := n\<rparr>) = armed i"
  by (simp add: armed_def live_failure_def live_recovery_def)

lemma armed_Cfg: "armed (i\<lparr>Cfg := c\<rparr>) = armed i"
  by (simp add: armed_def live_failure_def live_recovery_def)


lemma CRCLIENT_success:
  assumes "armed i" "\<not> health_err p"
  shows "\<exists>i'. CRCLIENT (p # rest) i tr =
           (Return None, i',
            tr @ [NewClient (URL (Cfg i)) (Token (Cfg i)), HealthCall p, GoHealthCheck,
                  LogInitialized, GoWorker 0, GoCloser]) \<and>
         wasup i' \<and> client i' = Suc (client i)"
proof -
  let ?i1 = "i\<lparr>client := Suc (client i)\<rparr>"
  have "armed ?i1" using assms(1) by (simp add: armed_client)
  from health_ok_armed [OF this assms(2)] obtain i2 where
    h: "health p ?i1 = Some i2" by blast
  have "exec_all cs s = Some s' \<Longrightarrow> client s' = client s" for cs s s'
  proof (induction cs arbitrary: s)
    case Nil
    then show ?case by simp
  next
    case (Cons c cs)
    then show ?case by (cases c) (auto split: option.splits if_splits)
  qed
  with h have "client i2 = Suc (client i)" by (simp add: health_def)
  then show ?thesis using h assms(2) by (simp add: Let_def numWorkers_def)
qed

text \<open>
  C6. \<^verbatim>\<open>Init\<close> returns an error exactly when the decoder does, and then that error. After
  a successful decode, on a new output: while the probes fail \<^verbatim>\<open>Init\<close> does not return,
  and each failure leaves a new client, the probe and a sleep of 10 seconds in the trace,
  with nothing spawned; at the first success it returns nil, having made one client per
  probe, and only then starts the health check, the worker and the closer.
\<close>

theorem init_error_iff_decode_fails:
  "(fst (Init DecodeConfig cfg ps i) = Return (Some e)
      \<longleftrightarrow> fst (DecodeConfig cfg (Cfg i)) = Some e) \<and>
   (DecodeConfig cfg zero_Config = (None, c) \<and> (\<forall>q \<in> set fails. health_err q) \<longrightarrow>
      (\<exists>i'. Init DecodeConfig cfg fails new_output =
          (NoReturn, i', concat (map (attempt (apply_defaults c)) fails))) \<and>
      (\<not> health_err p \<longrightarrow>
         (\<exists>i'. Init DecodeConfig cfg (fails @ p # rest) new_output =
            (Return None, i',
             concat (map (attempt (apply_defaults c)) fails) @
             [NewClient (URL (apply_defaults c)) (Token (apply_defaults c)), HealthCall p,
              GoHealthCheck, LogInitialized, GoWorker 0, GoCloser]) \<and>
            wasup i' \<and> client i' = Suc (length fails))))"
proof -
  have a: "fst (Init DecodeConfig cfg ps i) = Return (Some e)
      \<longleftrightarrow> fst (DecodeConfig cfg (Cfg i)) = Some e"
    by (cases "DecodeConfig cfg (Cfg i)")
       (auto simp: Init_def CRCLIENT_no_error split: option.splits)
  have b: "(\<exists>i'. Init DecodeConfig cfg fails new_output =
          (NoReturn, i', concat (map (attempt (apply_defaults c)) fails))) \<and>
      (\<not> health_err p \<longrightarrow>
         (\<exists>i'. Init DecodeConfig cfg (fails @ p # rest) new_output =
            (Return None, i',
             concat (map (attempt (apply_defaults c)) fails) @
             [NewClient (URL (apply_defaults c)) (Token (apply_defaults c)), HealthCall p,
              GoHealthCheck, LogInitialized, GoWorker 0, GoCloser]) \<and>
            wasup i' \<and> client i' = Suc (length fails)))"
    if d: "DecodeConfig cfg zero_Config = (None, c)" and f: "\<forall>q \<in> set fails. health_err q"
  proof -
    let ?i0 = "new_output\<lparr>Cfg := apply_defaults c\<rparr>"
    let ?i1 = "?i0\<lparr>client := client ?i0 + length fails\<rparr>"
    have nw: "\<not> wasup ?i0" by (simp add: new_output_def)
    have i: "Init DecodeConfig cfg qs new_output = CRCLIENT qs ?i0 []" for qs
      using d by (simp add: Init_def new_output_def)
    have r: "CRCLIENT (fails @ qs) ?i0 [] =
        CRCLIENT qs ?i1 ([] @ concat (map (attempt (Cfg ?i0)) fails))" for qs
      using f nw by (rule CRCLIENT_retries)
    have ar: "armed ?i1" using armed_new_output by (simp add: armed_client armed_Cfg)
    have one: "\<exists>i'. Init DecodeConfig cfg fails new_output =
          (NoReturn, i', concat (map (attempt (apply_defaults c)) fails))"
      using r [of "[]"] i [of fails] by simp
    have two: "\<exists>i'. Init DecodeConfig cfg (fails @ p # rest) new_output =
            (Return None, i',
             concat (map (attempt (apply_defaults c)) fails) @
             [NewClient (URL (apply_defaults c)) (Token (apply_defaults c)), HealthCall p,
              GoHealthCheck, LogInitialized, GoWorker 0, GoCloser]) \<and>
            wasup i' \<and> client i' = Suc (length fails)" if ok: "\<not> health_err p"
    proof -
      from CRCLIENT_success [OF ar ok, of rest "concat (map (attempt (apply_defaults c)) fails)"]
      obtain i' where
        s: "CRCLIENT (p # rest) ?i1 (concat (map (attempt (apply_defaults c)) fails)) =
           (Return None, i',
            concat (map (attempt (apply_defaults c)) fails) @
              [NewClient (URL (Cfg ?i1)) (Token (Cfg ?i1)), HealthCall p, GoHealthCheck,
                  LogInitialized, GoWorker 0, GoCloser])" "wasup i'" "client i' = Suc (client ?i1)"
        by blast
      have "client ?i1 = length fails" by (simp add: new_output_def)
      then show ?thesis using s r [of "p # rest"] i [of "fails @ p # rest"] by simp
    qed
    show ?thesis using one two by blast
  qed
  show ?thesis using a b by blast
qed

theorem init_error_iff_decode_fails_witness:
  "Init (\<lambda>raw c. (None, c)) () [ProbeError, Report False, ProbeError, NilReport] new_output =
     (Return None,
      new_output\<lparr>Cfg := apply_defaults zero_Config, client := 4, startSig := 3, wasup := True,
        closed_chans := [2], fresh := 4, recovery_sigs := [2, 3]\<rparr>,
      [NewClient ''http://localhost:8086'' [], HealthCall ProbeError, Sleep 10000000000,
       NewClient ''http://localhost:8086'' [], HealthCall (Report False), Sleep 10000000000,
       NewClient ''http://localhost:8086'' [], HealthCall ProbeError, Sleep 10000000000,
       NewClient ''http://localhost:8086'' [], HealthCall NilReport,
       GoHealthCheck, LogInitialized, GoWorker 0, GoCloser]) \<and>
   fst (Init (\<lambda>raw c. (Some ''bad'', c)) () [NilReport] new_output) = Return (Some ''bad'')"
proof -
  have f: "\<forall>q \<in> set [ProbeError, Report False, ProbeError]. health_err q" by simp
  have d: "(\<lambda>raw c. (None, c)) () zero_Config = (None, zero_Config)" by simp
  from init_error_iff_decode_fails
    [of "\<lambda>raw c. (None, c)" "()" "[]" new_output "''x''" zero_Config
        "[ProbeError, Report False, ProbeError]" NilReport "[]"] d f
  obtain i' where
    "Init (\<lambda>raw c. (None, c)) () ([ProbeError, Report False, ProbeError] @ [NilReport]) new_output =
      (Return None, i',
       concat (map (attempt (apply_defaults zero_Config)) [ProbeError, Report False, ProbeError]) @
       [NewClient (URL (apply_defaults zero_Config)) (Token (apply_defaults zero_Config)),
        HealthCall NilReport, GoHealthCheck, LogInitialized, GoWorker 0, GoCloser])"
    by auto
  then have one: "snd (snd (Init (\<lambda>raw c. (None, c)) () [ProbeError, Report False, ProbeError, NilReport] new_output))
     = [NewClient ''http://localhost:8086'' [], HealthCall ProbeError, Sleep 10000000000,
       NewClient ''http://localhost:8086'' [], HealthCall (Report False), Sleep 10000000000,
       NewClient ''http://localhost:8086'' [], HealthCall ProbeError, Sleep 10000000000,
       NewClient ''http://localhost:8086'' [], HealthCall NilReport,
       GoHealthCheck, LogInitialized, GoWorker 0, GoCloser]"
    by (simp add: attempt_def apply_defaults_def zero_Config_def defaultURL_def)
  have two: "fst (Init (\<lambda>raw c. (Some ''bad'', c)) () [NilReport] new_output) = Return (Some ''bad'')"
    using init_error_iff_decode_fails
      [of "\<lambda>raw c. (Some ''bad'', c)" "()" "[NilReport]" new_output "''bad''"]
    by simp
  have three: "Init (\<lambda>raw c. (None, c)) () [ProbeError, Report False, ProbeError, NilReport] new_output =
     (Return None,
      new_output\<lparr>Cfg := apply_defaults zero_Config, client := 4, startSig := 3, wasup := True,
        closed_chans := [2], fresh := 4, recovery_sigs := [2, 3]\<rparr>,
      snd (snd (Init (\<lambda>raw c. (None, c)) () [ProbeError, Report False, ProbeError, NilReport] new_output)))"
    by (simp add: Init_def new_output_def health_def Let_def numWorkers_def)
  show ?thesis using one two three by simp
qed

section \<open>Write\<close>

text \<open>
  C8. For a \<^verbatim>\<open>SubscribeResponse\<close>, the conversion is asked for the measurement name that
  the metadata gives under \<^verbatim>\<open>subscription-name\<close>, or for \<^verbatim>\<open>default\<close> without that key;
  \<^verbatim>\<open>Write\<close> uses the conversion at no other name.
\<close>

theorem measurement_name:
  "(meta ''subscription-name'' = Some subName \<longrightarrow>
      (\<exists>st rest. Write conv sched (Some (SubscribeResponse r)) meta i
         = (st, i, Convert subName # rest)) \<and>
      Write conv sched (Some (SubscribeResponse r)) meta i
        = Write (\<lambda>n. conv subName) sched (Some (SubscribeResponse r)) meta i) \<and>
   (meta ''subscription-name'' = None \<longrightarrow>
      (\<exists>st rest. Write conv sched (Some (SubscribeResponse r)) meta i
         = (st, i, Convert ''default'' # rest)) \<and>
      Write conv sched (Some (SubscribeResponse r)) meta i
        = Write (\<lambda>n. conv ''default'') sched (Some (SubscribeResponse r)) meta i)"
  by (auto simp: Write_def measName_def split: sum.splits prod.splits)

theorem measurement_name_witness:
  "(\<exists>st rest. Write (\<lambda>n r m. Inr []) [] (Some (SubscribeResponse ())) [''subscription-name'' \<mapsto> ''sub1''] new_output
      = (st, new_output, (Convert ''sub1'' :: unit effect) # rest)) \<and>
   (\<exists>st rest. Write (\<lambda>n r m. Inr []) [] (Some (SubscribeResponse ())) Map.empty new_output
      = (st, new_output, (Convert ''default'' :: unit effect) # rest))"
  using measurement_name [of "[''subscription-name'' \<mapsto> ''sub1'']" "''sub1''" "\<lambda>n r m. Inr []" "[]" "()" new_output]
    measurement_name [of Map.empty "''sub1''" "\<lambda>n r m. Inr []" "[]" "()" new_output]
  by simp

text \<open>
  C10. On a nil message, on a message that is not a \<^verbatim>\<open>SubscribeResponse\<close>, and on a
  failed conversion, \<^verbatim>\<open>Write\<close> returns, sends no event and leaves the output as it was.
\<close>

theorem unsupported_input_noop:
  "Write conv sched None meta i = (Returned, i, []) \<and>
   Write conv sched (Some OtherMessage) meta i = (Returned, i, []) \<and>
   (conv (measName meta) r meta = Inl err \<longrightarrow>
      (\<exists>es. Write conv sched (Some (SubscribeResponse r)) meta i = (Returned, i, es) \<and>
            sent_events es = []))"
  by (simp add: Write_def)

theorem unsupported_input_noop_witness:
  "Write (\<lambda>n r m. Inl ''bad'') [SelSent] (Some (SubscribeResponse ())) Map.empty new_output
     = (Returned, new_output, [Convert ''default'', LogConvertFailed ''bad'' :: unit effect])"
  using unsupported_input_noop [of "\<lambda>n r m. Inl ''bad''" "[SelSent]" Map.empty new_output "()" "''bad''"]
  by (auto simp: measName_def Write_def)






section \<open>The worker\<close>

lemma handles_append: "handles (xs @ ys) = handles xs @ handles ys"
  by (induction xs rule: handles.induct) auto

lemma submitted_append: "submitted (xs @ ys) = submitted xs @ submitted ys"
  by (induction xs rule: submitted.induct) auto

lemma split_at_elem:
  "tr @ new = pre @ a # post \<Longrightarrow>
   (\<exists>post'. tr = pre @ a # post') \<or> (\<exists>pre'. pre = tr @ pre' \<and> new = pre' @ a # post)"
  by (auto simp: append_eq_append_conv2 append_eq_Cons_conv)

lemma handles_empty_no_WriteAPI: "handles new = [] \<Longrightarrow> new \<noteq> pre @ WriteAPI h org b # post"
  by (auto simp: handles_append)

lemma submitted_empty_no_WritePoint: "submitted new = [] \<Longrightarrow> new \<noteq> pre @ WritePoint h p # post"
  by (auto simp: submitted_append)

lemma reentry_ok_append:
  assumes "reentry_ok tr" "handles new = []"
  shows "reentry_ok (tr @ new)"
  unfolding reentry_ok_def
proof (intro allI impI)
  fix pre h org bucket post
  assume e: "tr @ new = pre @ WriteAPI h org bucket # post"
  from split_at_elem [OF e] handles_empty_no_WriteAPI [OF assms(2)]
  obtain post' where "tr = pre @ WriteAPI h org bucket # post'" by blast
  with assms(1) show "pre = [LogStarting] \<or>
      (\<exists>pre'. pre = pre' @ [LogResetting, LogWaiting, RecvStartSig, LogStarting])"
    unfolding reentry_ok_def by blast
qed

lemma reentry_ok_acquire:
  assumes "reentry_ok (p @ [LogResetting, LogWaiting])"
  shows "reentry_ok ((p @ [LogResetting, LogWaiting]) @ [RecvStartSig, LogStarting, WriteAPI h org b])"
  unfolding reentry_ok_def
proof (intro allI impI)
  fix pre h' org' bucket' post
  let ?tr = "p @ [LogResetting, LogWaiting]"
  assume e: "?tr @ [RecvStartSig, LogStarting, WriteAPI h org b] = pre @ WriteAPI h' org' bucket' # post"
  from split_at_elem [OF e] consider
    (old) post' where "?tr = pre @ WriteAPI h' org' bucket' # post'"
  | (new) pre' where "pre = ?tr @ pre'"
      "[RecvStartSig, LogStarting, WriteAPI h org b] = pre' @ WriteAPI h' org' bucket' # post"
    by blast
  then show "pre = [LogStarting] \<or>
      (\<exists>pre'. pre = pre' @ [LogResetting, LogWaiting, RecvStartSig, LogStarting])"
  proof cases
    case old
    with assms show ?thesis unfolding reentry_ok_def by blast
  next
    case new
    from new(2) have "pre' = [RecvStartSig, LogStarting]"
      by (auto simp: Cons_eq_append_conv)
    with new(1) show ?thesis by simp
  qed
qed

lemma writes_ok_append:
  assumes "writes_ok tr" "submitted new = []"
  shows "writes_ok (tr @ new)"
  unfolding writes_ok_def
proof (intro allI impI)
  fix pre h p post
  assume e: "tr @ new = pre @ WritePoint h p # post"
  from split_at_elem [OF e] submitted_empty_no_WritePoint [OF assms(2)]
  obtain post' where "tr = pre @ WritePoint h p # post'" by blast
  with assms(1) show "current_writer pre = Some h"
    unfolding writes_ok_def by blast
qed

lemma writes_ok_write:
  assumes "writes_ok tr" "current_writer tr = Some h"
  shows "writes_ok (tr @ [WritePoint h p])"
  unfolding writes_ok_def
proof (intro allI impI)
  fix pre h' p' post
  assume e: "tr @ [WritePoint h p] = pre @ WritePoint h' p' # post"
  from split_at_elem [OF e] consider
    (old) post' where "tr = pre @ WritePoint h' p' # post'"
  | (new) pre' where "pre = tr @ pre'" "[WritePoint h p] = pre' @ WritePoint h' p' # post"
    by blast
  then show "current_writer pre = Some h'"
  proof cases
    case old
    with assms(1) show ?thesis unfolding writes_ok_def by blast
  next
    case new
    from new(2) have "pre' = [] \<and> h' = h" by (auto simp: Cons_eq_append_conv)
    with new(1) assms(2) show ?thesis by simp
  qed
qed

lemma current_writer_upt: "handles tr = [0..<Suc h] \<Longrightarrow> current_writer tr = Some h"
  by (simp add: current_writer_def)

lemma winv_begin: "winv cfg (worker_begin cfg)"
  by (auto simp: winv_def worker_begin_def START_def acquire_def reentry_ok_def writes_ok_def
      Cons_eq_append_conv append_eq_Cons_conv)

lemma winv_step:
  assumes "winv cfg w"
  shows "winv cfg (worker_step cfg ob w)"
proof (cases "wst w")
  case AtStart
  with assms show ?thesis by (simp add: winv_def)
next
  case Terminated
  with assms show ?thesis by (simp add: worker_step_def)
next
  case WaitingRecovery
  show ?thesis
  proof (cases "ob = StartSigClosed")
    case False
    with WaitingRecovery assms show ?thesis
      by (cases ob) (simp_all add: worker_step_def)
  next
    case True
    from assms WaitingRecovery obtain pre where
      tr: "wtrace w = pre @ [LogResetting, LogWaiting]" by (auto simp: winv_def)
    let ?new = "[RecvStartSig, LogStarting, WriteAPI (acquired w) (Org cfg) (Bucket cfg)]"
    have s: "worker_step cfg ob w =
        w\<lparr>wst := Running (acquired w), acquired := Suc (acquired w), wtrace := wtrace w @ ?new\<rparr>"
      using True WaitingRecovery by (simp add: worker_step_def acquire_def)
    have r: "reentry_ok (wtrace w @ ?new)"
      using assms reentry_ok_acquire [of pre] unfolding tr by (simp add: winv_def tr)
    have wr: "writes_ok (wtrace w @ ?new)"
      using assms by (intro writes_ok_append) (simp_all add: winv_def)
    show ?thesis using assms r wr unfolding s
      by (auto simp: winv_def handles_append)
  qed
next
  case (Running h)
  from assms Running have acq: "Suc h = acquired w" by (simp add: winv_def)
  from assms have hs: "handles (wtrace w) = [0..<acquired w]" by (simp add: winv_def)
  show ?thesis
  proof (cases ob)
    case CtxDone
    let ?new = "[LogCtxErr, LogTerminating]"
    have s: "worker_step cfg ob w = w\<lparr>wst := Terminated, wtrace := wtrace w @ ?new\<rparr>"
      using CtxDone Running by (simp add: worker_step_def)
    have "reentry_ok (wtrace w @ ?new)" "writes_ok (wtrace w @ ?new)"
      using assms by (simp_all add: winv_def reentry_ok_append writes_ok_append)
    then show ?thesis using assms Running acq unfolding s
      by (auto simp: winv_def handles_append)
  next
    case (Event ev)
    let ?new = "[WritePoint h (to_point ev)]"
    have s: "worker_step cfg ob w = w\<lparr>wtrace := wtrace w @ ?new\<rparr>"
      using Event Running by (simp add: worker_step_def)
    have cw: "current_writer (wtrace w) = Some h"
      using hs acq current_writer_upt [of "wtrace w" h] by simp
    have "reentry_ok (wtrace w @ ?new)" "writes_ok (wtrace w @ ?new)"
      using assms cw by (simp_all add: winv_def reentry_ok_append writes_ok_write)
    then show ?thesis using assms Running acq unfolding s
      by (auto simp: winv_def handles_append)
  next
    case ResetClosed
    let ?new = "[LogResetting, LogWaiting]"
    have s: "worker_step cfg ob w =
        w\<lparr>firstStart := False, wst := WaitingRecovery, wtrace := wtrace w @ ?new\<rparr>"
      using ResetClosed Running by (simp add: worker_step_def START_def)
    have "reentry_ok (wtrace w @ ?new)" "writes_ok (wtrace w @ ?new)"
      using assms by (simp_all add: winv_def reentry_ok_append writes_ok_append)
    then show ?thesis using assms Running acq unfolding s
      by (auto simp: winv_def handles_append)
  next
    case (WriterError err)
    let ?new = "[LogWriteError err]"
    have s: "worker_step cfg ob w = w\<lparr>wtrace := wtrace w @ ?new\<rparr>"
      using WriterError Running by (simp add: worker_step_def)
    have "reentry_ok (wtrace w @ ?new)" "writes_ok (wtrace w @ ?new)"
      using assms by (simp_all add: winv_def reentry_ok_append writes_ok_append)
    then show ?thesis using assms Running acq unfolding s
      by (auto simp: winv_def handles_append)
  next
    case StartSigClosed
    with Running assms show ?thesis by (simp add: worker_step_def)
  qed
qed

lemma winv_run: "winv cfg w \<Longrightarrow> winv cfg (run_worker cfg os w)"
  by (induction os arbitrary: w) (auto intro: winv_step)

text \<open>
  C5. On first entry the worker acquires a handle and is in its loop without having
  observed anything. In every run: each later acquisition directly follows a reset, the
  wait and the receipt of the recovery signal; the \<open>n\<close>-th acquisition is the \<open>n\<close>-th
  call of \<^verbatim>\<open>WriteAPI\<close>; every point is written through the handle acquired last, the one
  handle the loop holds. A reset seen in the loop leaves the worker waiting without a new
  handle; while it waits, nothing but the recovery signal moves it, and that signal makes
  it acquire the next handle and run.
\<close>

theorem worker_restart_discipline:
  fixes w :: "'v worker"
  assumes "w = run_worker cfg os (worker_begin cfg)"
  shows "wst (worker_begin cfg :: 'v worker) = Running 0 \<and>
    wtrace (worker_begin cfg :: 'v worker) = [LogStarting, WriteAPI 0 (Org cfg) (Bucket cfg)] \<and>
    reentry_ok (wtrace w) \<and> writes_ok (wtrace w) \<and> handles (wtrace w) = [0..<acquired w] \<and>
    (\<forall>h. wst w = Running h \<longrightarrow>
       Suc h = acquired w \<and>
       wst (worker_step cfg ResetClosed w) = WaitingRecovery \<and>
       acquired (worker_step cfg ResetClosed w) = acquired w) \<and>
    (wst w = WaitingRecovery \<longrightarrow>
       (ob \<noteq> StartSigClosed \<longrightarrow> worker_step cfg ob w = w) \<and>
       wst (worker_step cfg StartSigClosed w) = Running (acquired w) \<and>
       acquired (worker_step cfg StartSigClosed w) = Suc (acquired w))"
proof -
  have i: "winv cfg w"
    unfolding assms using winv_begin by (rule winv_run)
  have b: "wst (worker_begin cfg :: 'v worker) = Running 0"
    "wtrace (worker_begin cfg :: 'v worker) = [LogStarting, WriteAPI 0 (Org cfg) (Bucket cfg)]"
    by (simp_all add: worker_begin_def START_def acquire_def)
  have r: "wst (worker_step cfg ResetClosed w) = WaitingRecovery \<and>
       acquired (worker_step cfg ResetClosed w) = acquired w" if "wst w = Running h" for h
    using that by (simp add: worker_step_def START_def)
  have q: "(ob \<noteq> StartSigClosed \<longrightarrow> worker_step cfg ob w = w) \<and>
       wst (worker_step cfg StartSigClosed w) = Running (acquired w) \<and>
       acquired (worker_step cfg StartSigClosed w) = Suc (acquired w)"
    if "wst w = WaitingRecovery"
    using that by (cases ob) (simp_all add: worker_step_def acquire_def)
  show ?thesis using i b r q by (simp add: winv_def)
qed

theorem worker_restart_discipline_witness:
  "wst (run_worker zero_Config [] (worker_begin zero_Config) :: unit worker) = Running 0 \<and>
   wst (worker_step zero_Config ResetClosed
         (run_worker zero_Config [] (worker_begin zero_Config) :: unit worker))
     = WaitingRecovery \<and>
   wst (run_worker zero_Config [ResetClosed, CtxDone] (worker_begin zero_Config) :: unit worker)
     = WaitingRecovery \<and>
   wst (worker_step zero_Config StartSigClosed
         (run_worker zero_Config [ResetClosed, CtxDone] (worker_begin zero_Config) :: unit worker))
     = Running 1 \<and>
   wtrace (run_worker zero_Config [ResetClosed, CtxDone, StartSigClosed]
            (worker_begin zero_Config) :: unit worker)
     = [LogStarting, WriteAPI 0 [] [], LogResetting, LogWaiting, RecvStartSig, LogStarting,
        WriteAPI 1 [] []] \<and>
   reentry_ok (wtrace (run_worker zero_Config [ResetClosed, CtxDone, StartSigClosed]
            (worker_begin zero_Config) :: unit worker))"
proof -
  let ?w = "run_worker zero_Config [ResetClosed, CtxDone] (worker_begin zero_Config) :: unit worker"
  have w: "wst ?w = WaitingRecovery" "acquired ?w = 1"
    by (simp_all add: worker_begin_def worker_step_def START_def acquire_def)
  have t: "wtrace (run_worker zero_Config [ResetClosed, CtxDone, StartSigClosed]
            (worker_begin zero_Config) :: unit worker)
     = [LogStarting, WriteAPI 0 [] [], LogResetting, LogWaiting, RecvStartSig, LogStarting,
        WriteAPI 1 [] []]"
    by (simp add: worker_begin_def worker_step_def START_def acquire_def zero_Config_def)
  from worker_restart_discipline [OF refl, of zero_Config "[ResetClosed, CtxDone]" CtxDone]
  have "wst ?w = WaitingRecovery \<longrightarrow>
      wst (worker_step zero_Config StartSigClosed ?w) = Running (acquired ?w)"
    by blast
  with w(1) have "wst (worker_step zero_Config StartSigClosed ?w) = Running (acquired ?w)"
    by blast
  then have one: "wst (worker_step zero_Config StartSigClosed ?w) = Running 1"
    unfolding w(2) .
  from worker_restart_discipline
    [OF refl, of zero_Config "[ResetClosed, CtxDone, StartSigClosed]" CtxDone]
  have two: "reentry_ok (wtrace (run_worker zero_Config [ResetClosed, CtxDone, StartSigClosed]
            (worker_begin zero_Config) :: unit worker))" by blast
  let ?v = "run_worker zero_Config [] (worker_begin zero_Config) :: unit worker"
  have v: "wst ?v = Running 0"
    by (simp add: worker_begin_def START_def acquire_def)
  from worker_restart_discipline [OF refl, of zero_Config "[]" CtxDone]
  have "\<forall>h. wst ?v = Running h \<longrightarrow>
      wst (worker_step zero_Config ResetClosed ?v) = WaitingRecovery"
    by blast
  with v have zero: "wst (worker_step zero_Config ResetClosed ?v) = WaitingRecovery"
    by blast
  show ?thesis using v zero w(1) one two t by blast
qed

lemma UnixNano_Unix: "UnixNano (Unix 0 ts) = ts"
  by (simp add: UnixNano_def Unix_def Let_def)

lemma nsec_Unix: "0 \<le> nsec (Unix 0 ts) \<and> nsec (Unix 0 ts) < 1000000000"
proof (cases "ts < 0")
  case True
  have "ts sdiv 1000000000 = - (\<bar>ts\<bar> div 1000000000)"
    using True by (simp add: signed_divide_int_def)
  moreover have "\<bar>ts\<bar> = \<bar>ts\<bar> div 1000000000 * 1000000000 + \<bar>ts\<bar> mod 1000000000" by simp
  moreover have "0 \<le> \<bar>ts\<bar> mod 1000000000" "\<bar>ts\<bar> mod 1000000000 < 1000000000" by simp_all
  ultimately show ?thesis using True
    by (auto simp: Unix_def Let_def)
next
  case False
  have "ts sdiv 1000000000 = ts div 1000000000"
    using False by (simp add: signed_divide_int_def sgn_if)
  moreover have "ts = ts div 1000000000 * 1000000000 + ts mod 1000000000" by simp
  moreover have "0 \<le> ts mod 1000000000" "ts mod 1000000000 < 1000000000" by simp_all
  ultimately show ?thesis using False
    by (auto simp: Unix_def Let_def)
qed

lemma submitted_step:
  "submitted (wtrace (worker_step cfg ob w)) =
     submitted (wtrace w) @
       (case (wst w, ob) of (Running h, Event ev) \<Rightarrow> [to_point ev] | _ \<Rightarrow> [])"
  by (auto simp: worker_step_def START_def acquire_def submitted_append
      split: wstate.splits obs.splits)

lemma submitted_run_subset:
  "set (submitted (wtrace (run_worker cfg os w)))
     \<subseteq> set (submitted (wtrace w)) \<union> to_point ` {ev. Event ev \<in> set os}"
proof (induction os arbitrary: w)
  case Nil
  then show ?case by simp
next
  case (Cons ob os)
  have "set (submitted (wtrace (worker_step cfg ob w)))
      \<subseteq> set (submitted (wtrace w)) \<union> to_point ` {ev. Event ev \<in> set (ob # os)}"
    by (auto simp: submitted_step split: wstate.splits obs.splits)
  moreover have "to_point ` {ev. Event ev \<in> set os} \<subseteq> to_point ` {ev. Event ev \<in> set (ob # os)}"
    by auto
  ultimately show ?case using Cons.IH [of "worker_step cfg ob w"] by auto
qed

lemma run_events_running:
  "wst w = Running h \<Longrightarrow>
   run_worker cfg (map Event evs) w = w\<lparr>wtrace := wtrace w @ map (\<lambda>ev. WritePoint h (to_point ev)) evs\<rparr>"
proof (induction evs arbitrary: w)
  case Nil
  then show ?case by simp
next
  case (Cons ev evs)
  let ?w1 = "w\<lparr>wtrace := wtrace w @ [WritePoint h (to_point ev)]\<rparr>"
  have s: "worker_step cfg (Event ev) w = ?w1"
    using Cons.prems by (simp add: worker_step_def)
  have "wst ?w1 = Running h" using Cons.prems by simp
  from Cons.IH [OF this] show ?case using s by simp
qed

lemma submitted_map_WritePoint: "submitted (map (\<lambda>ev. WritePoint h (f ev)) evs) = map f evs"
  by (induction evs) auto

text \<open>
  C7. The point built from an event has the event's name as measurement, its tags as
  tags, its values as fields, and a time whose Unix nanoseconds are the event's timestamp.
  A running worker that dequeues an event submits exactly that point to its handle; a
  worker that dequeues a list of events submits their points in order; and no run submits
  a point that is not the point of an event it dequeued.
\<close>

theorem point_conversion:
  fixes ev :: "'v EventMsg" and w :: "'v worker" and evs :: "'v EventMsg list"
    and os :: "'v obs list"
  shows
  "measurement (to_point ev) = Name ev \<and> tags (to_point ev) = Tags ev \<and>
   pfields (to_point ev) = Values ev \<and> UnixNano (ptime (to_point ev)) = Timestamp ev \<and>
   0 \<le> nsec (ptime (to_point ev)) \<and> nsec (ptime (to_point ev)) < 1000000000 \<and>
   (wst w = Running h \<longrightarrow>
      worker_step cfg (Event ev) w = w\<lparr>wtrace := wtrace w @ [WritePoint h (to_point ev)]\<rparr>) \<and>
   submitted (wtrace (run_worker cfg (map Event evs) (worker_begin cfg))) = map to_point evs \<and>
   set (submitted (wtrace (run_worker cfg os (worker_begin cfg))))
     \<subseteq> to_point ` {ev. Event ev \<in> set os}"
proof -
  have b: "wst (worker_begin cfg :: 'v worker) = Running 0"
    "submitted (wtrace (worker_begin cfg :: 'v worker)) = []"
    by (simp_all add: worker_begin_def START_def acquire_def)
  have r: "submitted (wtrace (run_worker cfg (map Event evs) (worker_begin cfg))) = map to_point evs"
    using run_events_running [OF b(1), of cfg evs]
    by (simp add: submitted_append submitted_map_WritePoint b(2))
  have s: "set (submitted (wtrace (run_worker cfg os (worker_begin cfg))))
     \<subseteq> to_point ` {ev. Event ev \<in> set os}"
    using submitted_run_subset [of cfg os "worker_begin cfg"] b(2) by simp
  have t: "UnixNano (ptime (to_point ev)) = Timestamp ev"
    by (simp add: to_point_def NewPoint_def UnixNano_Unix)
  have n: "0 \<le> nsec (ptime (to_point ev)) \<and> nsec (ptime (to_point ev)) < 1000000000"
    using nsec_Unix [of "Timestamp ev"] by (simp add: to_point_def NewPoint_def)
  show ?thesis using r s t n
    by (simp add: to_point_def NewPoint_def worker_step_def)
qed

theorem point_conversion_witness:
  "worker_step zero_Config
     (Event \<lparr>Name = ''ifcounters'', Timestamp = - 1, Tags = [''port'' \<mapsto> ''1''],
             Values = [''rx_bytes'' \<mapsto> (100::int)]\<rparr>)
     (worker_begin zero_Config)
   = \<lparr>wst = Running 0, firstStart = True, acquired = 1,
      wtrace = [LogStarting, WriteAPI 0 [] [],
        WritePoint 0 \<lparr>measurement = ''ifcounters'', tags = [''port'' \<mapsto> ''1''],
          pfields = [''rx_bytes'' \<mapsto> 100], ptime = \<lparr>sec = - 1, nsec = 999999999\<rparr>\<rparr>]\<rparr>"
proof -
  have r: "wst (worker_begin zero_Config :: int worker) = Running 0"
    by (simp add: worker_begin_def START_def acquire_def)
  have p: "to_point \<lparr>Name = ''ifcounters'', Timestamp = - 1, Tags = [''port'' \<mapsto> ''1''],
             Values = [''rx_bytes'' \<mapsto> (100::int)]\<rparr>
      = \<lparr>measurement = ''ifcounters'', tags = [''port'' \<mapsto> ''1''],
          pfields = [''rx_bytes'' \<mapsto> 100], ptime = \<lparr>sec = - 1, nsec = 999999999\<rparr>\<rparr>"
    by (simp add: to_point_def NewPoint_def Unix_def signed_divide_int_def)
  from point_conversion [where w = "worker_begin zero_Config :: int worker" and h = 0
      and cfg = zero_Config
      and ev = "\<lparr>Name = ''ifcounters'', Timestamp = - 1, Tags = [''port'' \<mapsto> ''1''],
             Values = [''rx_bytes'' \<mapsto> (100::int)]\<rparr>"] r
  have "worker_step zero_Config
     (Event \<lparr>Name = ''ifcounters'', Timestamp = - 1, Tags = [''port'' \<mapsto> ''1''],
             Values = [''rx_bytes'' \<mapsto> (100::int)]\<rparr>)
     (worker_begin zero_Config)
     = (worker_begin zero_Config)\<lparr>wtrace := wtrace (worker_begin zero_Config) @
        [WritePoint 0 (to_point \<lparr>Name = ''ifcounters'', Timestamp = - 1, Tags = [''port'' \<mapsto> ''1''],
             Values = [''rx_bytes'' \<mapsto> (100::int)]\<rparr>)]\<rparr>"
    by blast
  then show ?thesis
    by (simp add: p worker_begin_def START_def acquire_def zero_Config_def)
qed

end
